theory Spec2Isabelle
  imports Main
begin

section \<open>Python values used by \<open>ner.py\<close>\<close>

text \<open>
  A Python 3 \<open>str\<close> is a sequence of Unicode code points; \<open>len\<close>, slicing and
  indexing count code points.  The punctuation table of \<open>context\<close> holds two code
  points above 255, so the text is modelled as a list of code points rather than of
  bytes.  Backend names, type labels and segment labels are only ever compared and
  tested for emptiness; they are kept as ordinary strings.
\<close>

type_synonym pychar = nat
type_synonym pystr = "pychar list"

datatype py_error = IndexError | KeyError | ValueError | TypeError
  | UnboundLocalError | AttributeError | BackendError

text \<open>Code points of an ASCII literal of the source.\<close>

definition ustr :: "string \<Rightarrow> pystr" where
  "ustr s = map of_char s"

text \<open>
  \<open>str.isspace\<close> for one code point, the test behind \<open>str.strip()\<close> and
  \<open>str.split()\<close> without arguments.
\<close>

definition py_isspace :: "pychar \<Rightarrow> bool" where
  "py_isspace c \<longleftrightarrow>
     (9 \<le> c \<and> c \<le> 13) \<or> (28 \<le> c \<and> c \<le> 32) \<or> c = 133 \<or> c = 160 \<or> c = 5760
     \<or> (8192 \<le> c \<and> c \<le> 8202) \<or> c = 8232 \<or> c = 8233 \<or> c = 8239 \<or> c = 8287
     \<or> c = 12288"

text \<open>
  Slices \<open>xs[:stop]\<close> and \<open>xs[start:]\<close>: a negative bound counts from the end and
  every bound is clamped to the sequence, so a slice never raises.
\<close>

definition py_slice_to :: "'a list \<Rightarrow> int \<Rightarrow> 'a list" where
  "py_slice_to xs stop =
     (if 0 \<le> stop then take (nat stop) xs else take (length xs - nat (- stop)) xs)"

definition py_slice_from :: "'a list \<Rightarrow> int \<Rightarrow> 'a list" where
  "py_slice_from xs start =
     (if 0 \<le> start then drop (nat start) xs else drop (length xs - nat (- start)) xs)"

text \<open>\<open>s[-1]\<close> and \<open>s[0]\<close>: both raise \<open>IndexError\<close> on the empty string.\<close>

definition py_last_item :: "'a list \<Rightarrow> py_error + 'a" where
  "py_last_item xs = (if xs = [] then Inl IndexError else Inr (last xs))"

definition py_first_item :: "'a list \<Rightarrow> py_error + 'a" where
  "py_first_item xs = (case xs of [] \<Rightarrow> Inl IndexError | x # _ \<Rightarrow> Inr x)"

definition py_strip :: "pystr \<Rightarrow> pystr" where
  "py_strip s = rev (dropWhile py_isspace (rev (dropWhile py_isspace s)))"

text \<open>
  \<open>s.split()\<close>: the maximal runs of non-whitespace code points, in order.  The first
  argument is the token being read.
\<close>

fun split_run :: "pystr \<Rightarrow> pystr \<Rightarrow> pystr list" where
  "split_run tok [] = (if tok = [] then [] else [tok])"
| "split_run tok (c # cs) =
     (if py_isspace c then (if tok = [] then split_run [] cs else tok # split_run [] cs)
      else split_run (tok @ [c]) cs)"

definition py_split :: "pystr \<Rightarrow> pystr list" where
  "py_split s = split_run [] s"

fun py_join :: "pystr \<Rightarrow> pystr list \<Rightarrow> pystr" where
  "py_join sep [] = []"
| "py_join sep [x] = x"
| "py_join sep (x # y # ys) = x @ sep @ py_join sep (y # ys)"

text \<open>\<open>s.find(sub)\<close>: the lowest index where \<open>sub\<close> starts, or \<open>-1\<close>.\<close>

fun find_from :: "pystr \<Rightarrow> pystr \<Rightarrow> int \<Rightarrow> int" where
  "find_from sub [] i = (if sub = [] then i else - 1)"
| "find_from sub (c # cs) i =
     (if take (length sub) (c # cs) = sub then i else find_from sub cs (i + 1))"

definition py_find :: "pystr \<Rightarrow> pystr \<Rightarrow> int" where
  "py_find s sub = find_from sub s 0"

section \<open>The context function\<close>

text \<open>
  The punctuation table: the literal of the source holds U+201D, U+201E and then the
  ASCII characters \<^verbatim>\<open>! , ' " , ` < > ? - +\<close> and the backslash, fourteen code points
  with the comma twice.
\<close>

definition CONTEXT_TOKENS :: pystr where
  "CONTEXT_TOKENS = [8221, 8222, 33, 44, 39, 34, 44, 96, 60, 62, 63, 45, 43, 92]"

text \<open>
  \<open>context(text_org, ne, pos, context)\<close> of the source (\<open>context\<close> is a
  reserved word here, hence the prefix; the parameter \<open>context\<close> is named as its
  callers name it).  The two \<open>try\<close> blocks index a possibly
  empty string; the \<open>IndexError\<close> is caught by \<open>except Exception: pass\<close>, which
  leaves \<open>ne_context\<close> as it was.
\<close>

definition ner_context :: "pystr \<Rightarrow> pystr \<Rightarrow> int \<Rightarrow> int \<Rightarrow> pystr \<times> pystr \<times> pystr" where
  "ner_context text_org ne pos context_len =
     (let leftof = py_strip (py_slice_to text_org pos);
          l_context = py_join (ustr '' '') (py_slice_from (py_split leftof) (- context_len));
          rightof = py_strip (py_slice_from text_org (pos + int (length ne)));
          r_context = py_join (ustr '' '') (py_slice_to (py_split rightof) context_len);
          ne_context = ne;
          ne_context = (case py_last_item l_context of
                          Inl _ \<Rightarrow> ne_context
                        | Inr c \<Rightarrow> if c \<in> set CONTEXT_TOKENS then c # ne_context
                                   else ne_context);
          ne_context = (case py_first_item r_context of
                          Inl _ \<Rightarrow> ne_context
                        | Inr c \<Rightarrow> if c \<in> set CONTEXT_TOKENS then ne_context @ [c]
                                   else ne_context)
      in (l_context, r_context, ne_context))"

section \<open>Label translation\<close>

text \<open>
  \<open>translate\<close> lower-cases the label and maps the short tags of the engines to the
  shared taxonomy.  Labels are ASCII tags of the engines; \<open>lower\<close> acts on the
  letters \<open>A\<close> to \<open>Z\<close>.
\<close>

definition py_lower_char :: "char \<Rightarrow> char" where
  "py_lower_char c =
     (if 65 \<le> (of_char c :: nat) \<and> (of_char c :: nat) \<le> 90
      then char_of (of_char c + (32 :: nat)) else c)"

definition translate :: "string \<Rightarrow> string" where
  "translate input_str =
     (let input_str = map py_lower_char input_str
      in if input_str = ''org'' then ''organisation''
         else if input_str = ''per'' then ''person''
         else if input_str = ''misc'' then ''other''
         else if input_str = ''gpe'' then ''location''
         else if input_str = ''loc'' then ''location''
         else input_str)"

section \<open>Dictionaries in insertion order\<close>

text \<open>
  A Python \<open>dict\<close> iterates in insertion order, and assigning to a key that is
  already present keeps the key's place.  A dictionary is the list of its items.
\<close>

type_synonym ('k, 'v) pydict = "('k \<times> 'v) list"

definition dict_get :: "('k, 'v) pydict \<Rightarrow> 'k \<Rightarrow> 'v option" where
  "dict_get d k = map_of d k"

fun dict_set :: "'k \<Rightarrow> 'v \<Rightarrow> ('k, 'v) pydict \<Rightarrow> ('k, 'v) pydict" where
  "dict_set k v [] = [(k, v)]"
| "dict_set k v ((k', v') # d) =
     (if k' = k then (k, v) # d else (k', v') # dict_set k v d)"

definition dict_keys :: "('k, 'v) pydict \<Rightarrow> 'k list" where
  "dict_keys d = map fst d"

section \<open>Type resolution: \<open>max_class\<close>\<close>

text \<open>
  \<open>max(input_type, key=input_type.get)\<close> walks the keys in order and keeps the first
  key whose count is not exceeded later; on an empty dictionary it raises
  \<open>ValueError\<close>.
\<close>

fun max_key :: "string \<times> int \<Rightarrow> (string, int) pydict \<Rightarrow> string" where
  "max_key (k, v) [] = k"
| "max_key (k, v) ((k', v') # d) =
     (if v < v' then max_key (k', v') d else max_key (k, v) d)"

text \<open>
  The local \<open>sure\<close> is assigned only by the four equality tests; \<open>None\<close> stands
  for the unassigned local, and returning it is the \<open>UnboundLocalError\<close> of the
  \<open>return\<close> statement.  The second to fourth tests read \<open>input_type.get(mc)\<close>
  after \<open>mc\<close> may have been replaced by \<open>pref_type\<close>.
\<close>

definition max_class :: "(string, int) pydict \<Rightarrow> string \<Rightarrow> py_error + (string \<times> int)" where
  "max_class input_type pref_type =
     (case input_type of
        [] \<Rightarrow> Inl ValueError
      | kv # d \<Rightarrow>
          (let mc = max_key kv d;
               sure = None;
               (mc, sure) = (if dict_get input_type mc = Some 1 then (pref_type, Some 1)
                             else (mc, sure));
               sure = (if dict_get input_type mc = Some 2 then Some 2 else sure);
               sure = (if dict_get input_type mc = Some 3 then Some 3 else sure);
               sure = (if dict_get input_type mc = Some 4 then Some 4 else sure)
           in case sure of None \<Rightarrow> Inl UnboundLocalError | Some n \<Rightarrow> Inr (mc, n)))"

section \<open>The aggregator: \<open>intergrate_results\<close>\<close>

record raw_entity =
  r_ne :: pystr
  r_pos :: int
  r_type :: string

text \<open>
  An entry of \<open>new_result\<close> while the passes run.  The key \<open>"type"\<close> holds the
  histogram until the final loop; \<open>pref_type\<close> and \<open>alt_ne\<close> are keys that may be
  missing.
\<close>

record entry =
  count :: int
  ne :: pystr
  ner_src :: "string list"
  type_hist :: "(string, int) pydict"
  pref_type :: "string option"
  alt_ne :: "pystr option"

text \<open>An entry of the returned list: \<open>pref_type\<close> is popped, the rest is added.\<close>

record out_entry =
  o_count :: int
  o_ne :: pystr
  o_alt_ne :: "pystr option"
  o_ner_src :: "string list"
  o_type :: string
  o_types :: "string list"
  o_type_certainty :: int
  o_left_context :: pystr
  o_right_context :: pystr
  o_ne_context :: pystr
  o_pos :: int
  o_source :: string

type_synonym registry = "(int, entry) pydict"

text \<open>
  The local \<open>res\<close> starts as the empty list and is rebound to each entry built
  by the two seed passes.  The second loop tests \<open>ne.get("pos") in res\<close>: membership
  in that list, or among the keys of that entry, which are strings.  Only what this
  test reads is kept of \<open>res\<close>: its elements or keys.
\<close>

datatype pykey = KInt int | KStr string

definition seed_entry_keys :: "pykey list" where
  "seed_entry_keys = [KStr ''count'', KStr ''ne'', KStr ''ner_src'', KStr ''type'',
                      KStr ''pref_type'']"

definition seed_entry :: "string \<Rightarrow> raw_entity \<Rightarrow> entry" where
  "seed_entry backend x =
     \<lparr>count = 1, ne = r_ne x, ner_src = [backend], type_hist = [(r_type x, 1)],
      pref_type = Some (r_type x), alt_ne = None\<rparr>"

fun stanford_pass :: "raw_entity list \<Rightarrow> registry \<times> pykey list \<Rightarrow> registry \<times> pykey list" where
  "stanford_pass [] st = st"
| "stanford_pass (x # xs) (new_result, res) =
     stanford_pass xs (dict_set (r_pos x) (seed_entry ''stanford'' x) new_result,
                       seed_entry_keys)"

definition hist_add :: "(string, int) pydict \<Rightarrow> string \<Rightarrow> (string, int) pydict" where
  "hist_add h t = (case dict_get h t of None \<Rightarrow> dict_set t 1 h
                                      | Some n \<Rightarrow> dict_set t (n + 1) h)"

text \<open>
  One step of the second loop.  The \<open>else\<close> branch subscripts \<open>new_result\<close>
  with the offset, which raises \<open>KeyError\<close> when the offset is missing.
\<close>

definition spotlight_step ::
  "raw_entity \<Rightarrow> registry \<times> pykey list \<Rightarrow> py_error + (registry \<times> pykey list)" where
  "spotlight_step x st =
     (case st of (new_result, res) \<Rightarrow>
        if \<not> (KInt (r_pos x) \<in> set res)
        then Inr (dict_set (r_pos x) (seed_entry ''spotlight'' x) new_result, seed_entry_keys)
        else (case dict_get new_result (r_pos x) of
                None \<Rightarrow> Inl KeyError
              | Some e \<Rightarrow>
                  Inr (dict_set (r_pos x)
                         (e\<lparr>count := count e + 1,
                            ner_src := ner_src e @ [''spotlight''],
                            type_hist := hist_add (type_hist e) (r_type x)\<rparr>) new_result,
                       res)))"

fun spotlight_pass ::
  "raw_entity list \<Rightarrow> registry \<times> pykey list \<Rightarrow> py_error + (registry \<times> pykey list)" where
  "spotlight_pass [] st = Inr st"
| "spotlight_pass (x # xs) st =
     (case spotlight_step x st of Inl err \<Rightarrow> Inl err | Inr st' \<Rightarrow> spotlight_pass xs st')"

definition parsers :: "string list" where
  "parsers = [''spacy'', ''polyglot'', ''flair'']"

definition parser_step :: "string \<Rightarrow> raw_entity \<Rightarrow> registry \<Rightarrow> registry" where
  "parser_step parser x new_result =
     (case dict_get new_result (r_pos x) of
        Some e \<Rightarrow>
          if parser \<in> set (ner_src e) then new_result
          else dict_set (r_pos x)
                 (e\<lparr>count := count e + 1,
                    ner_src := ner_src e @ [parser],
                    type_hist := hist_add (type_hist e) (r_type x),
                    alt_ne := (if r_ne x \<noteq> ne e then Some (r_ne x) else alt_ne e)\<rparr>)
                 new_result
      | None \<Rightarrow>
          dict_set (r_pos x)
            \<lparr>count = 1, ne = r_ne x, ner_src = [parser], type_hist = [(r_type x, 1)],
             pref_type = None, alt_ne = None\<rparr> new_result)"

fun parser_pass :: "string \<Rightarrow> raw_entity list \<Rightarrow> registry \<Rightarrow> registry" where
  "parser_pass parser [] new_result = new_result"
| "parser_pass parser (x # xs) new_result =
     parser_pass parser xs (parser_step parser x new_result)"

fun parsers_pass ::
  "(string \<rightharpoonup> raw_entity list) \<Rightarrow> string list \<Rightarrow> registry \<Rightarrow> registry" where
  "parsers_pass result [] new_result = new_result"
| "parsers_pass result (parser # ps) new_result =
     (case result parser of
        None \<Rightarrow> parsers_pass result ps new_result
      | Some xs \<Rightarrow> parsers_pass result ps (parser_pass parser xs new_result))"

text \<open>
  The test of the final loop: \<open>new_result[ne].get("pref_type")\<close> is true for a
  present, non-empty label; the length of \<open>ner_src\<close> is compared with \<open>==\<close>.
\<close>

definition survives :: "entry \<Rightarrow> bool" where
  "survives e \<longleftrightarrow>
     (case pref_type e of None \<Rightarrow> False | Some t \<Rightarrow> t \<noteq> []) \<or> length (ner_src e) = 2"

definition resolve_type :: "entry \<Rightarrow> py_error + (string \<times> int)" where
  "resolve_type e =
     (case pref_type e of
        Some t \<Rightarrow> max_class (type_hist e) t
      | None \<Rightarrow> (case dict_keys (type_hist e) of
                   [] \<Rightarrow> Inl IndexError
                 | k # _ \<Rightarrow> max_class (type_hist e) k))"

definition finalize :: "string \<Rightarrow> pystr \<Rightarrow> int \<Rightarrow> int \<Rightarrow> entry \<Rightarrow> py_error + out_entry" where
  "finalize source source_text context_len p e =
     (case resolve_type e of
        Inl err \<Rightarrow> Inl err
      | Inr (mc, sure) \<Rightarrow>
          (case ner_context source_text (ne e) p context_len of
             (l, r, c) \<Rightarrow>
               Inr \<lparr>o_count = count e, o_ne = ne e, o_alt_ne = alt_ne e,
                    o_ner_src = ner_src e, o_type = mc, o_types = dict_keys (type_hist e),
                    o_type_certainty = sure, o_left_context = l, o_right_context = r,
                    o_ne_context = c, o_pos = p, o_source = source\<rparr>))"

fun final_pass :: "string \<Rightarrow> pystr \<Rightarrow> int \<Rightarrow> registry \<Rightarrow> py_error + out_entry list" where
  "final_pass source source_text context_len [] = Inr []"
| "final_pass source source_text context_len ((p, e) # d) =
     (if survives e
      then (case finalize source source_text context_len p e of
              Inl err \<Rightarrow> Inl err
            | Inr x \<Rightarrow> (case final_pass source source_text context_len d of
                          Inl err \<Rightarrow> Inl err
                        | Inr xs \<Rightarrow> Inr (x # xs)))
      else final_pass source source_text context_len d)"

text \<open>
  \<open>result.get("stanford")\<close> and \<open>result.get("spotlight")\<close> are iterated without a
  test, so a missing backend raises \<open>TypeError\<close>; the three parsers are skipped when
  missing.  \<open>sorted(..., key=itemgetter('pos'))\<close> is a stable sort on the offsets.
\<close>

definition intergrate_results ::
  "(string \<rightharpoonup> raw_entity list) \<Rightarrow> string \<Rightarrow> pystr \<Rightarrow> int \<Rightarrow> py_error + out_entry list" where
  "intergrate_results result source source_text context_len =
     (case result ''stanford'' of
        None \<Rightarrow> Inl TypeError
      | Some stanford \<Rightarrow>
          (let st = stanford_pass stanford ([], [])
           in case result ''spotlight'' of
                None \<Rightarrow> Inl TypeError
              | Some spotlight \<Rightarrow>
                  (case spotlight_pass spotlight st of
                     Inl err \<Rightarrow> Inl err
                   | Inr (new_result, res) \<Rightarrow>
                       (case final_pass source source_text context_len
                               (parsers_pass result parsers new_result) of
                          Inl err \<Rightarrow> Inl err
                        | Inr final_result \<Rightarrow> Inr (sort_key o_pos final_result)))))"

section \<open>The manual finder: \<open>manual_find\<close>\<close>

text \<open>
  The returned dictionary.  The three context keys are missing until assigned.  The
  last statement of the branch for a literal that was found assigns the whole triple
  returned by the context function to \<open>ne_context\<close>, so that key holds a string
  or a triple.
\<close>

datatype ctx_value = CStr pystr | CTriple "pystr \<times> pystr \<times> pystr"

record manual_entity =
  m_pos :: int
  m_ne :: pystr
  m_source :: string
  m_type :: string
  m_left_context :: "pystr option"
  m_right_context :: "pystr option"
  m_ne_context :: "ctx_value option"

text \<open>
  In the branch \<open>if not pos == -1\<close> the source has three statements, one per line:
  \<^verbatim>\<open>result["left_context"],\<close> and \<^verbatim>\<open>result["right_context"],\<close> are expression
  statements that read a key of \<open>result\<close>, and only the third is an assignment.
  Reading a missing key raises \<open>KeyError\<close>.
\<close>

definition manual_find :: "pystr \<Rightarrow> pystr \<Rightarrow> string \<Rightarrow> int \<Rightarrow> py_error + manual_entity" where
  "manual_find input_str source_text source context_len =
     (let pos = py_find source_text input_str;
          result = \<lparr>m_pos = pos, m_ne = input_str, m_source = source, m_type = ''manual'',
                    m_left_context = None, m_right_context = None, m_ne_context = None\<rparr>
      in if pos \<noteq> - 1
         then (case m_left_context result of
                 None \<Rightarrow> Inl KeyError
               | Some _ \<Rightarrow>
                   (case m_right_context result of
                      None \<Rightarrow> Inl KeyError
                    | Some _ \<Rightarrow>
                        Inr (result\<lparr>m_ne_context :=
                               Some (CTriple (ner_context source_text input_str pos
                                                context_len))\<rparr>)))
         else Inr (result\<lparr>m_left_context := Some [], m_right_context := Some [],
                          m_ne_context := Some (CStr input_str)\<rparr>))"

section \<open>Backend adapters: \<open>Flair\<close> and \<open>Spacy\<close>\<close>

text \<open>
  Each adapter is a thread object: \<open>run\<close> is the thread's body and \<open>join\<close> waits
  for it and reads the object's \<open>result\<close> attribute.  An exception that leaves
  \<open>run\<close> ends the thread and is not passed on to \<open>join\<close>; the attributes assigned
  before it stay.  The recogniser engines are parameters: a call returns a value or
  raises.  \<open>None\<close> in \<open>fl_result\<close> and \<open>sp_result\<close> is the attribute not yet
  assigned, and reading it raises \<open>AttributeError\<close>.
\<close>

record flair_span =
  fs_text :: pystr
  fs_start_pos :: int
  fs_type :: string

record flair_thread =
  fl_parsed_text :: pystr
  fl_result :: "raw_entity list option"

definition Flair_init :: "pystr \<Rightarrow> flair_thread" where
  "Flair_init parsed_text = \<lparr>fl_parsed_text = parsed_text, fl_result = None\<rparr>"

text \<open>
  The engine yields, per sentence, the list of entity dictionaries; \<open>None\<close> is an
  empty dictionary, which \<open>if not i: continue\<close> skips.
\<close>

definition flair_entities :: "flair_span option list list \<Rightarrow> raw_entity list" where
  "flair_entities tagged_items =
     concat (map (\<lambda>item. concat (map (\<lambda>i. case i of
                     None \<Rightarrow> []
                   | Some sp \<Rightarrow> [\<lparr>r_ne = fs_text sp, r_pos = fs_start_pos sp,
                                  r_type = translate (fs_type sp)\<rparr>]) item)) tagged_items)"

definition Flair_run ::
  "(pystr \<Rightarrow> py_error + flair_span option list list) \<Rightarrow> flair_thread \<Rightarrow> flair_thread" where
  "Flair_run nlp_flair self =
     (case nlp_flair (fl_parsed_text self) of
        Inl err \<Rightarrow> self
      | Inr tagged_items \<Rightarrow> self\<lparr>fl_result := Some (flair_entities tagged_items)\<rparr>)"

definition Flair_join :: "flair_thread \<Rightarrow> py_error + (string, raw_entity list) pydict" where
  "Flair_join self =
     (case fl_result self of
        None \<Rightarrow> Inl AttributeError
      | Some r \<Rightarrow> Inr [(''flair'', r)])"

text \<open>
  The offset loop shared by the adapters that get no offsets from their engine: each
  surface form is searched from a cursor moved past the previous one.
\<close>

fun locate :: "pystr \<Rightarrow> int \<Rightarrow> (pystr \<times> string) list \<Rightarrow> raw_entity list" where
  "locate parsed_text offset [] = []"
| "locate parsed_text offset ((n, t) # xs) =
     (let pos = py_find (py_slice_from parsed_text offset) n
      in \<lparr>r_ne = n, r_pos = pos + offset, r_type = t\<rparr>
         # locate parsed_text (offset + (pos + int (length n))) xs)"

record spacy_thread =
  sp_parsed_text :: pystr
  sp_result :: "(string, raw_entity list) pydict option"

definition Spacy_init :: "pystr \<Rightarrow> spacy_thread" where
  "Spacy_init parsed_text = \<lparr>sp_parsed_text = parsed_text, sp_result = None\<rparr>"

text \<open>The engine yields the entities as pairs of text and label.\<close>

definition Spacy_run ::
  "(pystr \<Rightarrow> py_error + (pystr \<times> string) list) \<Rightarrow> spacy_thread \<Rightarrow> spacy_thread" where
  "Spacy_run nlp_spacy self =
     (let result = (case nlp_spacy (sp_parsed_text self) of
                      Inl err \<Rightarrow> []
                    | Inr ents \<Rightarrow>
                        locate (sp_parsed_text self) 0
                          (map (\<lambda>(t, label). (t, translate label)) ents))
      in self\<lparr>sp_result := Some [(''spacy'', result)]\<rparr>)"

definition Spacy_join :: "spacy_thread \<Rightarrow> py_error + (string, raw_entity list) pydict" where
  "Spacy_join self =
     (case sp_result self of
        None \<Rightarrow> Inl AttributeError
      | Some r \<Rightarrow> Inr r)"

section \<open>Well-formed histograms\<close>

text \<open>
  A type histogram is a non-empty dictionary (its keys are distinct) whose counts are
  at least 1; the winning count is its largest count.
\<close>

definition histogram :: "(string, int) pydict \<Rightarrow> bool" where
  "histogram h \<longleftrightarrow> h \<noteq> [] \<and> distinct (dict_keys h) \<and> (\<forall>v \<in> set (map snd h). 1 \<le> v)"

definition winning_count :: "(string, int) pydict \<Rightarrow> int" where
  "winning_count h = Max (set (map snd h))"

text \<open>Two entries of the registry used as examples.\<close>

definition seeded_twice :: entry where
  "seeded_twice = \<lparr>count = 2, ne = ustr ''Albert Einstein'', ner_src = [''stanford'', ''spacy''],
     type_hist = [(''person'', 1), (''location'', 1)], pref_type = Some ''person'',
     alt_ne = Some (ustr ''Einstein'')\<rparr>"

definition agreed_twice :: entry where
  "agreed_twice = \<lparr>count = 2, ne = ustr ''Albert Einstein'', ner_src = [''stanford'', ''polyglot''],
     type_hist = [(''person'', 2)], pref_type = Some ''person'', alt_ne = None\<rparr>"

section \<open>States of the seed passes\<close>

text \<open>
  What \<open>res\<close> can hold while the seed passes run: no integer.  Two raw entities at the
  same offset, as the two seed backends report them.
\<close>

definition no_int_key :: "pykey list \<Rightarrow> bool" where
  "no_int_key res \<longleftrightarrow> (\<forall>k \<in> set res. case k of KInt i \<Rightarrow> False | KStr s \<Rightarrow> True)"

definition einstein_stanford :: raw_entity where
  "einstein_stanford = \<lparr>r_ne = ustr ''Albert Einstein'', r_pos = 37, r_type = ''person''\<rparr>"

definition einstein_spotlight :: raw_entity where
  "einstein_spotlight = \<lparr>r_ne = ustr ''Albert Einstein'', r_pos = 37, r_type = ''other''\<rparr>"

section \<open>Non-whitespace code points\<close>

text \<open>The code points of a string that are not whitespace, in order.\<close>

definition nonspace :: "pystr \<Rightarrow> pystr" where
  "nonspace s = filter (\<lambda>c. \<not> py_isspace c) s"

section \<open>Well-formed registries\<close>

text \<open>
  What the passes keep true of every entry: the histogram is well formed and its counts
  add up to the number of sources, and the sources are distinct backends of which all
  but the first are parsers.  A registry is a dictionary of such entries.
\<close>

definition entry_ok :: "entry \<Rightarrow> bool" where
  "entry_ok e \<longleftrightarrow>
     histogram (type_hist e)
     \<and> sum_list (map snd (type_hist e)) = int (length (ner_src e))
     \<and> ner_src e \<noteq> [] \<and> distinct (ner_src e) \<and> set (tl (ner_src e)) \<subseteq> set parsers"

definition registry_ok :: "registry \<Rightarrow> bool" where
  "registry_ok reg \<longleftrightarrow> distinct (dict_keys reg) \<and> (\<forall>pe \<in> set reg. entry_ok (snd pe))"

text \<open>Backend results in which the first seed backend reports offset 37 before offset 0.\<close>

definition two_backends :: "string \<rightharpoonup> raw_entity list" where
  "two_backends = map_of
     [(''stanford'', [einstein_stanford, \<lparr>r_ne = ustr ''Deze'', r_pos = 0, r_type = ''other''\<rparr>]),
      (''spotlight'', [])]"

section \<open>Evaluation rules\<close>

lemmas ctx_eval = ner_context_def ustr_def py_strip_def py_split_def py_slice_to_def
  py_slice_from_def py_isspace_def py_last_item_def py_first_item_def CONTEXT_TOKENS_def

lemmas agg_eval = intergrate_results_def parsers_def parser_step_def spotlight_step_def
  seed_entry_def seed_entry_keys_def dict_get_def dict_keys_def hist_add_def survives_def
  finalize_def resolve_type_def max_class_def

section \<open>The survival filter\<close>

text \<open>
  C1.  The claim: an entry is in the output if and only if it has a preferred type
  or its source list holds at least two backends; an entry without preferred type and
  with three backends survives.  The final loop compares the length of the source
  list with \<open>== 2\<close>.  At the input below the three parsers \<open>spacy\<close>, \<open>polyglot\<close>
  and \<open>flair\<close> report the same entity at offset 0 and no seed backend reports
  anything: the registry holds one entry with three sources and no preferred type,
  and the returned list is empty.
\<close>

theorem survival_three_parsers_dropped:
  "parsers_pass
     (map_of [(''stanford'', []), (''spotlight'', []),
              (''spacy'', [\<lparr>r_ne = ustr ''Bob'', r_pos = 0, r_type = ''person''\<rparr>]),
              (''polyglot'', [\<lparr>r_ne = ustr ''Bob'', r_pos = 0, r_type = ''person''\<rparr>]),
              (''flair'', [\<lparr>r_ne = ustr ''Bob'', r_pos = 0, r_type = ''person''\<rparr>])])
     parsers []
   = [(0, \<lparr>count = 3, ne = ustr ''Bob'', ner_src = [''spacy'', ''polyglot'', ''flair''],
           type_hist = [(''person'', 3)], pref_type = None, alt_ne = None\<rparr>)]
   \<and> intergrate_results
     (map_of [(''stanford'', []), (''spotlight'', []),
              (''spacy'', [\<lparr>r_ne = ustr ''Bob'', r_pos = 0, r_type = ''person''\<rparr>]),
              (''polyglot'', [\<lparr>r_ne = ustr ''Bob'', r_pos = 0, r_type = ''person''\<rparr>]),
              (''flair'', [\<lparr>r_ne = ustr ''Bob'', r_pos = 0, r_type = ''person''\<rparr>])])
     ''p'' (ustr ''Bob sings'') 5 = Inr []"
  by (simp add: intergrate_results_def parsers_def parser_step_def dict_get_def
      hist_add_def survives_def)

section \<open>The manual finder\<close>

text \<open>
  C3.  The claim: \<open>manual_find\<close> never raises and returns one record with the
  offset of the first occurrence, type \<open>manual\<close> and, when the literal is found, the
  three values of the context function.  At the scenario of the specification the
  literal is found at offset 44, and the first statement of the branch reads the key
  \<open>left_context\<close> of a dictionary that does not have it: the call raises
  \<open>KeyError\<close> and returns no record.
\<close>

theorem manual_find_found_raises:
  "py_find (ustr ''Deze iets langere test bevat de naam Albert Einstein.'')
     (ustr ''Einstein'') = 44
   \<and> manual_find (ustr ''Einstein'')
       (ustr ''Deze iets langere test bevat de naam Albert Einstein.'') ''p'' 5
     = Inl KeyError"
  by (simp add: manual_find_def py_find_def ustr_def)

section \<open>The adapters\<close>

text \<open>
  The body of \<open>Spacy.run\<close> catches every exception of its engine and hands an empty
  list to \<open>join\<close>.
\<close>

lemma Spacy_fail_open:
  "Spacy_join (Spacy_run (\<lambda>t. Inl err) (Spacy_init parsed_text)) = Inr [(''spacy'', [])]"
  by (simp add: Spacy_join_def Spacy_run_def Spacy_init_def)

text \<open>
  C9.  The claim: no adapter raises to the dispatcher; a failing engine gives an empty
  list for that backend.  \<open>Flair.run\<close> has no handler and assigns \<open>self.result\<close>
  only after the engine has returned.  When the engine raises, for every text, the
  attribute is never assigned and \<open>Flair.join\<close> raises \<open>AttributeError\<close>
  instead of returning the mapping from \<open>flair\<close> to the empty list.
\<close>

theorem Flair_join_raises_after_engine_failure:
  "Flair_join (Flair_run (\<lambda>t. Inl BackendError) (Flair_init parsed_text))
   = Inl AttributeError"
  by (simp add: Flair_join_def Flair_run_def Flair_init_def)

section \<open>The context windows\<close>

text \<open>
  C7.  The claim: for every window size \<open>W\<close> the left context holds at most
  \<open>W\<close> tokens.  The left window is the slice \<open>[-context:]\<close> of the token list, and
  for \<open>context = 0\<close> that slice is \<open>[0:]\<close>, the whole list.  With the text
  \<open>a b X\<close>, the surface form \<open>X\<close> at offset 4 and window size 0 the left context
  is \<open>a b\<close>, two tokens, while the right context is empty.
\<close>

theorem context_window_zero_keeps_all_left_tokens:
  "ner_context (ustr ''a b X'') (ustr ''X'') 4 0 = (ustr ''a b'', [], ustr ''X'')
   \<and> py_split (ustr ''a b'') = [ustr ''a'', ustr ''b'']
   \<and> \<not> int (length (py_split (fst (ner_context (ustr ''a b X'') (ustr ''X'') 4 0)))) \<le> 0"
  by (simp add: ctx_eval)

section \<open>Type resolution\<close>

text \<open>The key kept by \<open>max\<close> carries the largest count of the dictionary.\<close>

lemma Max_insert_absorb:
  fixes v :: int
  assumes "finite S" "v \<le> v'"
  shows "Max (insert v (insert v' S)) = Max (insert v' S)"
proof -
  have "v' \<le> Max (insert v' S)" using assms(1) by simp
  then have "max v (Max (insert v' S)) = Max (insert v' S)" using assms(2) by (simp add: max_def)
  moreover have "Max (insert v (insert v' S)) = max v (Max (insert v' S))"
    using assms(1) by (intro Max_insert) auto
  ultimately show ?thesis by simp
qed

lemma max_key_is_max:
  "(max_key (k, v) d, Max (insert v (snd ` set d))) \<in> insert (k, v) (set d)"
proof (induction d arbitrary: k v)
  case Nil
  show ?case by simp
next
  case (Cons a d)
  obtain k' v' where a: "a = (k', v')" by (cases a)
  have fin: "finite (snd ` set d)" by simp
  show ?case
  proof (cases "v < v'")
    case True
    have "Max (insert v (snd ` set (a # d))) = Max (insert v' (snd ` set d))"
      using True fin a Max_insert_absorb[of "snd ` set d" v v'] by simp
    with Cons.IH[of k' v'] True a show ?thesis by auto
  next
    case False
    have "Max (insert v' (insert v (snd ` set d))) = Max (insert v (snd ` set d))"
      using False fin Max_insert_absorb[of "snd ` set d" v' v] by simp
    then have "Max (insert v (snd ` set (a # d))) = Max (insert v (snd ` set d))"
      using a by (simp add: insert_commute)
    with Cons.IH[of k v] False a show ?thesis by auto
  qed
qed

lemma dict_get_member:
  "distinct (dict_keys h) \<Longrightarrow> (k, v) \<in> set h \<Longrightarrow> dict_get h k = Some v"
  by (simp add: dict_get_def dict_keys_def)

lemma dict_get_le_winning:
  assumes "dict_get h k = Some v"
  shows "v \<le> winning_count h"
proof -
  have "(k, v) \<in> set h" using assms by (simp add: dict_get_def map_of_SomeD)
  then have "v \<in> set (map snd h)" by force
  then show ?thesis unfolding winning_count_def by (intro Max_ge) auto
qed

lemma max_key_winning:
  assumes "distinct (dict_keys (kv # d))"
  shows "dict_get (kv # d) (max_key kv d) = Some (winning_count (kv # d))"
proof -
  obtain k v where kv: "kv = (k, v)" by (cases kv)
  have "(max_key (k, v) d, Max (insert v (snd ` set d))) \<in> set (kv # d)"
    using max_key_is_max[of k v d] kv by simp
  moreover have "winning_count (kv # d) = Max (insert v (snd ` set d))"
    by (simp add: winning_count_def kv)
  ultimately show ?thesis using assms kv dict_get_member by metis
qed

lemma max_class_one:
  assumes "distinct (dict_keys h)" "h \<noteq> []" "winning_count h = 1"
  shows "max_class h pref = Inr (pref, 1)"
proof -
  obtain kv d where h: "h = kv # d" using assms(2) by (cases h) auto
  have w: "dict_get h (max_key kv d) = Some 1"
    using max_key_winning[of kv d] assms h by simp
  have le: "\<And>k v. dict_get h k = Some v \<Longrightarrow> v \<le> 1"
    using dict_get_le_winning assms(3) by metis
  have "dict_get h pref \<noteq> Some 2" "dict_get h pref \<noteq> Some 3" "dict_get h pref \<noteq> Some 4"
    using le by fastforce+
  then show ?thesis using w h by (simp add: max_class_def)
qed

lemma max_class_many:
  assumes "distinct (dict_keys h)" "h \<noteq> []" "winning_count h = m" "m = 2 \<or> m = 3 \<or> m = 4"
  shows "\<exists>w. dict_get h w = Some m \<and> max_class h pref = Inr (w, m)"
proof -
  obtain kv d where h: "h = kv # d" using assms(2) by (cases h) auto
  have w: "dict_get h (max_key kv d) = Some m"
    using max_key_winning[of kv d] assms h by simp
  then have "max_class h pref = Inr (max_key kv d, m)"
    using h assms(4) by (auto simp add: max_class_def)
  with w show ?thesis by blast
qed

lemma max_class_unbound:
  assumes "distinct (dict_keys h)" "h \<noteq> []" "5 \<le> winning_count h"
  shows "max_class h pref = Inl UnboundLocalError"
proof -
  obtain kv d where h: "h = kv # d" using assms(2) by (cases h) auto
  have w: "dict_get h (max_key kv d) = Some (winning_count h)"
    using max_key_winning[of kv d] assms h by simp
  then show ?thesis using h assms(3) by (auto simp add: max_class_def)
qed

lemma resolve_type_one:
  assumes "histogram (type_hist e)" "winning_count (type_hist e) = 1"
  shows "resolve_type e
         = Inr (case pref_type e of Some t \<Rightarrow> t | None \<Rightarrow> hd (dict_keys (type_hist e)), 1)"
proof -
  have d: "distinct (dict_keys (type_hist e))" and n: "type_hist e \<noteq> []"
    using assms(1) by (simp_all add: histogram_def)
  show ?thesis
  proof (cases "pref_type e")
    case (Some t)
    then show ?thesis using max_class_one[OF d n assms(2)] by (simp add: resolve_type_def)
  next
    case None
    obtain k ks where ks: "dict_keys (type_hist e) = k # ks"
      using n by (cases "type_hist e") (auto simp: dict_keys_def)
    with None show ?thesis using max_class_one[OF d n assms(2)] by (simp add: resolve_type_def)
  qed
qed

lemma first_key_count_one:
  assumes "histogram h" "winning_count h = 1"
  shows "dict_get h (hd (dict_keys h)) = Some 1"
proof -
  obtain k v d where h: "h = (k, v) # d" using assms(1) by (cases h) (auto simp: histogram_def)
  have g: "dict_get h k = Some v" by (simp add: h dict_get_def)
  have "1 \<le> v" using assms(1) h by (simp add: histogram_def)
  moreover have "v \<le> 1" using dict_get_le_winning[OF g] assms(2) by simp
  ultimately show ?thesis using g h by (simp add: dict_keys_def)
qed

text \<open>
  C4.  For every entry that reaches the final loop with a well-formed histogram: when
  the winning count is 1 the entry is emitted with certainty 1 and with the preferred
  type when the entry has one, else with the first key of the histogram, whose count
  is the winning count 1; when the winning count is 2, 3 or 4 the entry is emitted
  with a type whose count in the histogram is the winning count and with that count as
  certainty.
\<close>

theorem type_resolution:
  assumes "histogram (type_hist e)"
  shows "(winning_count (type_hist e) = 1 \<longrightarrow>
            (\<exists>x. finalize source source_text context_len p e = Inr x
                 \<and> o_type_certainty x = 1
                 \<and> (case pref_type e of
                       Some t \<Rightarrow> o_type x = t
                     | None \<Rightarrow> o_type x = hd (dict_keys (type_hist e))
                               \<and> dict_get (type_hist e) (o_type x) = Some 1)))
       \<and> (winning_count (type_hist e) \<in> {2, 3, 4} \<longrightarrow>
            (\<exists>x. finalize source source_text context_len p e = Inr x
                 \<and> o_type_certainty x = winning_count (type_hist e)
                 \<and> dict_get (type_hist e) (o_type x) = Some (winning_count (type_hist e))))"
proof (intro conjI impI)
  obtain l r c where ctx: "ner_context source_text (ne e) p context_len = (l, r, c)"
    by (cases "ner_context source_text (ne e) p context_len")
  {
    assume one: "winning_count (type_hist e) = 1"
    have rt: "resolve_type e
         = Inr (case pref_type e of Some t \<Rightarrow> t | None \<Rightarrow> hd (dict_keys (type_hist e)), 1)"
      using resolve_type_one[OF assms one] .
    show "\<exists>x. finalize source source_text context_len p e = Inr x
                 \<and> o_type_certainty x = 1
                 \<and> (case pref_type e of
                       Some t \<Rightarrow> o_type x = t
                     | None \<Rightarrow> o_type x = hd (dict_keys (type_hist e))
                               \<and> dict_get (type_hist e) (o_type x) = Some 1)"
      using rt ctx first_key_count_one[OF assms one]
      by (cases "pref_type e") (simp_all add: finalize_def)
  }
  {
    assume many: "winning_count (type_hist e) \<in> {2, 3, 4}"
    have d: "distinct (dict_keys (type_hist e))" and n: "type_hist e \<noteq> []"
      using assms by (simp_all add: histogram_def)
    have m: "winning_count (type_hist e) = 2 \<or> winning_count (type_hist e) = 3
             \<or> winning_count (type_hist e) = 4" using many by auto
    have "\<exists>w. dict_get (type_hist e) w = Some (winning_count (type_hist e))
              \<and> resolve_type e = Inr (w, winning_count (type_hist e))"
    proof (cases "pref_type e")
      case (Some t)
      then show ?thesis using max_class_many[OF d n refl m, of t] by (simp add: resolve_type_def)
    next
      case None
      obtain k ks where ks: "dict_keys (type_hist e) = k # ks"
        using n by (cases "type_hist e") (auto simp: dict_keys_def)
      with None show ?thesis using max_class_many[OF d n refl m, of k]
        by (simp add: resolve_type_def)
    qed
    then obtain w where w: "dict_get (type_hist e) w = Some (winning_count (type_hist e))"
      and rt: "resolve_type e = Inr (w, winning_count (type_hist e))" by blast
    show "\<exists>x. finalize source source_text context_len p e = Inr x
                 \<and> o_type_certainty x = winning_count (type_hist e)
                 \<and> dict_get (type_hist e) (o_type x) = Some (winning_count (type_hist e))"
      using rt ctx w by (simp add: finalize_def)
  }
qed

theorem type_resolution_witness:
  "histogram (type_hist seeded_twice) \<and> winning_count (type_hist seeded_twice) = 1
   \<and> (\<exists>x. finalize ''p'' (ustr ''Albert Einstein.'') 5 0 seeded_twice = Inr x
          \<and> o_type_certainty x = 1 \<and> o_type x = ''person'')
   \<and> histogram (type_hist agreed_twice) \<and> winning_count (type_hist agreed_twice) = 2
   \<and> (\<exists>x. finalize ''p'' (ustr ''Albert Einstein.'') 5 0 agreed_twice = Inr x
          \<and> o_type_certainty x = 2
          \<and> dict_get (type_hist agreed_twice) (o_type x) = Some 2)"
proof -
  have h1: "histogram (type_hist seeded_twice)"
    by (simp add: seeded_twice_def histogram_def dict_keys_def)
  have h2: "histogram (type_hist agreed_twice)"
    by (simp add: agreed_twice_def histogram_def dict_keys_def)
  have w1: "winning_count (type_hist seeded_twice) = 1"
    by (simp add: seeded_twice_def winning_count_def)
  have w2: "winning_count (type_hist agreed_twice) = 2"
    by (simp add: agreed_twice_def winning_count_def)
  have p1: "pref_type seeded_twice = Some ''person''" by (simp add: seeded_twice_def)
  show ?thesis
    using type_resolution[OF h1, of "''p''" "ustr ''Albert Einstein.''" 5 0]
          type_resolution[OF h2, of "''p''" "ustr ''Albert Einstein.''" 5 0]
          h1 h2 w1 w2 p1 by simp
qed

text \<open>
  C10.  For every type histogram (a non-empty dictionary) whose largest count is 5 or
  more, none of the four equality tests of \<open>max_class\<close> fires, \<open>sure\<close> is never
  assigned and the \<open>return\<close> raises \<open>UnboundLocalError\<close>, whatever the preferred
  type.
\<close>

theorem max_class_unbound_above_four:
  assumes "input_type \<noteq> []" and "distinct (dict_keys input_type)"
    and "5 \<le> winning_count input_type"
  shows "max_class input_type pref = Inl UnboundLocalError"
  using max_class_unbound[OF assms(2) assms(1) assms(3)] .

theorem max_class_unbound_above_four_witness:
  "[(''LOC'', 2), (''MISC'', 6)] \<noteq> [] \<and> distinct (dict_keys [(''LOC'', 2), (''MISC'', 6 :: int)])
   \<and> 5 \<le> winning_count [(''LOC'', 2), (''MISC'', 6)]
   \<and> max_class [(''LOC'', 2), (''MISC'', 6)] ''LOC'' = Inl UnboundLocalError"
  using max_class_unbound_above_four[of "[(''LOC'', 2), (''MISC'', 6)]" "''LOC''"]
  by (simp add: dict_keys_def winning_count_def)


section \<open>Dictionary assignment\<close>

lemma dict_get_dict_set:
  "dict_get (dict_set k v d) k' = (if k' = k then Some v else dict_get d k')"
  by (induction d) (auto simp: dict_get_def)

lemma dict_keys_dict_set:
  "dict_keys (dict_set k v d)
   = (if k \<in> set (dict_keys d) then dict_keys d else dict_keys d @ [k])"
  by (induction d) (force simp: dict_keys_def)+

lemma set_dict_keys_dict_set:
  "set (dict_keys (dict_set k v d)) = insert k (set (dict_keys d))"
  by (auto simp: dict_keys_dict_set)

lemma distinct_dict_set:
  "distinct (dict_keys d) \<Longrightarrow> distinct (dict_keys (dict_set k v d))"
  by (simp add: dict_keys_dict_set)

lemma set_dict_set_subset:
  "set (dict_set k v d) \<subseteq> insert (k, v) (set d)"
  by (induction d) (auto split: if_splits)

section \<open>The secondary-seed pass\<close>

text \<open>
  The membership test of the second loop never finds the offset, since \<open>res\<close> holds
  no integer: every step builds a seed entry, and the loop never raises.
\<close>

lemma no_int_key_seed: "no_int_key seed_entry_keys"
  by (simp add: no_int_key_def seed_entry_keys_def)

lemma no_int_key_Nil: "no_int_key []"
  by (simp add: no_int_key_def)

lemma no_int_key_not_member: "no_int_key res \<Longrightarrow> KInt p \<notin> set res"
  by (force simp: no_int_key_def)

lemma spotlight_step_seed:
  "no_int_key res \<Longrightarrow>
   spotlight_step x (new_result, res)
   = Inr (dict_set (r_pos x) (seed_entry ''spotlight'' x) new_result, seed_entry_keys)"
  by (simp add: spotlight_step_def no_int_key_not_member)

lemma stanford_pass_res:
  "no_int_key (snd st) \<Longrightarrow> no_int_key (snd (stanford_pass xs st))"
proof (induction xs arbitrary: st)
  case Nil
  then show ?case by simp
next
  case (Cons x xs)
  obtain reg res where st: "st = (reg, res)" by (cases st)
  show ?case using Cons.IH[of "(dict_set (r_pos x) (seed_entry ''stanford'' x) reg, seed_entry_keys)"]
    by (simp add: st no_int_key_seed)
qed

lemma spotlight_pass_total:
  "no_int_key (snd st) \<Longrightarrow>
   \<exists>reg res. spotlight_pass xs st = Inr (reg, res) \<and> no_int_key res"
proof (induction xs arbitrary: st)
  case Nil
  then show ?case by (cases st) simp
next
  case (Cons x xs)
  obtain reg res where st: "st = (reg, res)" by (cases st)
  have "spotlight_step x st
        = Inr (dict_set (r_pos x) (seed_entry ''spotlight'' x) reg, seed_entry_keys)"
    using Cons.prems st spotlight_step_seed by simp
  then show ?case
    using Cons.IH[of "(dict_set (r_pos x) (seed_entry ''spotlight'' x) reg, seed_entry_keys)"]
    by (simp add: no_int_key_seed)
qed

text \<open>
  C2, as the claim states it, fails.  After the first loop stored the entry of
  \<open>stanford\<close> at offset 37, the step for the entity of \<open>spotlight\<close> at offset 37
  replaces that entry by a fresh one: the count is 1 and not the old count plus one,
  the source list is not the old one extended by \<open>spotlight\<close>.  In an empty
  registry the same entity gets a new entry, and that entry carries a preferred type.
\<close>

theorem spotlight_replaces_existing_entry:
  "dict_get (fst (stanford_pass [einstein_stanford] ([], []))) 37
     = Some (seed_entry ''stanford'' einstein_stanford)
   \<and> spotlight_step einstein_spotlight (stanford_pass [einstein_stanford] ([], []))
     = Inr ([(37, seed_entry ''spotlight'' einstein_spotlight)], seed_entry_keys)
   \<and> count (seed_entry ''spotlight'' einstein_spotlight)
       \<noteq> count (seed_entry ''stanford'' einstein_stanford) + 1
   \<and> ner_src (seed_entry ''spotlight'' einstein_spotlight)
       \<noteq> ner_src (seed_entry ''stanford'' einstein_stanford) @ [''spotlight'']
   \<and> dict_get [] (r_pos einstein_spotlight) = (None :: entry option)
   \<and> spotlight_step einstein_spotlight ([], [])
     = Inr ([(37, seed_entry ''spotlight'' einstein_spotlight)], seed_entry_keys)
   \<and> pref_type (seed_entry ''spotlight'' einstein_spotlight) \<noteq> None"
  by (simp add: einstein_stanford_def einstein_spotlight_def spotlight_step_def
      seed_entry_def seed_entry_keys_def dict_get_def)

text \<open>
  C2, amended.  For every spotlight entity processed by \<open>intergrate_results\<close> (after
  the first loop over any list and the second loop over any earlier spotlight
  entities) whose offset is absent from the registry, the step creates an entry at
  that offset with count 1, the source list \<open>[spotlight]\<close>, the histogram of the one
  type with count 1 and the entity's type as preferred type, and changes no other
  offset.
\<close>

theorem spotlight_creates_seed_entry:
  assumes "spotlight_pass xs (stanford_pass stanford ([], [])) = Inr (new_result, res)"
    and "dict_get new_result (r_pos x) = None"
  shows "\<exists>new_result'.
           spotlight_step x (new_result, res) = Inr (new_result', seed_entry_keys)
         \<and> dict_get new_result' (r_pos x)
             = Some \<lparr>count = 1, ne = r_ne x, ner_src = [''spotlight''],
                     type_hist = [(r_type x, 1)], pref_type = Some (r_type x),
                     alt_ne = None\<rparr>
         \<and> (\<forall>q. q \<noteq> r_pos x \<longrightarrow> dict_get new_result' q = dict_get new_result q)"
proof -
  have "no_int_key (snd (stanford_pass stanford ([], [])))"
    using stanford_pass_res[of "([], [])" stanford] by (simp add: no_int_key_Nil)
  then have "no_int_key res"
    using spotlight_pass_total[of "stanford_pass stanford ([], [])" xs] assms(1) by auto
  then have "spotlight_step x (new_result, res)
        = Inr (dict_set (r_pos x) (seed_entry ''spotlight'' x) new_result, seed_entry_keys)"
    by (rule spotlight_step_seed)
  then show ?thesis by (simp add: dict_get_dict_set seed_entry_def)
qed

theorem spotlight_creates_seed_entry_witness:
  "spotlight_pass [] (stanford_pass [einstein_stanford] ([], []))
     = Inr ([(37, seed_entry ''stanford'' einstein_stanford)], seed_entry_keys)
   \<and> dict_get [(37 :: int, seed_entry ''stanford'' einstein_stanford)] 0 = None
   \<and> (\<exists>new_result'.
         spotlight_step \<lparr>r_ne = ustr ''Deze'', r_pos = 0, r_type = ''other''\<rparr>
           ([(37, seed_entry ''stanford'' einstein_stanford)], seed_entry_keys)
         = Inr (new_result', seed_entry_keys)
       \<and> dict_get new_result' 0
           = Some \<lparr>count = 1, ne = ustr ''Deze'', ner_src = [''spotlight''],
                   type_hist = [(''other'', 1)], pref_type = Some ''other'', alt_ne = None\<rparr>)"
proof -
  have a: "spotlight_pass [] (stanford_pass [einstein_stanford] ([], []))
     = Inr ([(37, seed_entry ''stanford'' einstein_stanford)], seed_entry_keys)"
    by (simp add: einstein_stanford_def)
  have b: "dict_get [(37, seed_entry ''stanford'' einstein_stanford)] 
             (r_pos \<lparr>r_ne = ustr ''Deze'', r_pos = 0, r_type = ''other''\<rparr>) = None"
    by (simp add: dict_get_def)
  show ?thesis
    using spotlight_creates_seed_entry[OF a b] a b by auto
qed


section \<open>The context function outside the text\<close>

text \<open>
  The context function is total: its slices are clamped, and the two index reads that
  can raise \<open>IndexError\<close> sit inside handlers that catch it.
\<close>

lemma py_slice_to_Nil: "py_slice_to [] n = []"
  by (simp add: py_slice_to_def)

lemma py_slice_from_Nil: "py_slice_from [] n = []"
  by (simp add: py_slice_from_def)

lemma py_strip_Nil: "py_strip [] = []"
  by (simp add: py_strip_def)

lemma py_split_Nil: "py_split [] = []"
  by (simp add: py_split_def)

lemma slice_from_beyond: "int (length xs) \<le> n \<Longrightarrow> py_slice_from xs n = []"
  by (simp add: py_slice_from_def)

lemma slice_to_before: "n \<le> - int (length xs) \<Longrightarrow> py_slice_to xs n = []"
  by (auto simp add: py_slice_to_def)

text \<open>
  C6, as the claim states it, fails.  Offset 5 is outside the text \<open>a b\<close>, and the
  left context is the whole text, not the empty string; offset \<open>-1\<close> is outside the
  text \<open>a b c\<close>, and both contexts are non-empty.
\<close>

theorem context_out_of_range_not_empty:
  "\<not> (0 \<le> (5 :: int) \<and> 5 < int (length (ustr ''a b'')))
   \<and> fst (ner_context (ustr ''a b'') [] 5 5) = ustr ''a b''
   \<and> ustr ''a b'' \<noteq> []
   \<and> \<not> (0 \<le> (- 1 :: int))
   \<and> ner_context (ustr ''a b c'') [] (- 1) 5 = (ustr ''a b'', ustr ''c'', [])"
  by (simp add: ctx_eval)

text \<open>
  C6, amended.  For every text, surface form, window size and integer offset the
  context function returns its triple; for an offset at or beyond the end of the text
  the right context is the empty string, and for an offset at or below minus the
  length of the text the left context is the empty string.
\<close>

theorem context_out_of_range:
  "(int (length text_org) \<le> pos \<longrightarrow>
      fst (snd (ner_context text_org surface pos context_len)) = [])
   \<and> (pos \<le> - int (length text_org) \<longrightarrow>
      fst (ner_context text_org surface pos context_len) = [])"
proof (intro conjI impI)
  assume "int (length text_org) \<le> pos"
  then have "py_slice_from text_org (pos + int (length surface)) = []"
    by (intro slice_from_beyond) simp
  then show "fst (snd (ner_context text_org surface pos context_len)) = []"
    by (simp add: ner_context_def Let_def py_strip_Nil py_split_Nil py_slice_to_Nil)
next
  assume "pos \<le> - int (length text_org)"
  then have "py_slice_to text_org pos = []" by (rule slice_to_before)
  then show "fst (ner_context text_org surface pos context_len) = []"
    by (simp add: ner_context_def Let_def py_strip_Nil py_split_Nil py_slice_from_Nil)
qed

theorem context_out_of_range_witness:
  "int (length (ustr ''a b'')) \<le> 5
   \<and> fst (snd (ner_context (ustr ''a b'') [] 5 5)) = []
   \<and> - 3 \<le> - int (length (ustr ''a b''))
   \<and> fst (ner_context (ustr ''a b'') [] (- 3) 5) = []"
  using context_out_of_range[of "ustr ''a b''" 5 "[]" 5]
        context_out_of_range[of "ustr ''a b''" "- 3" "[]" 5]
  by (simp add: ustr_def)

section \<open>The boundary characters of \<open>ne_context\<close>\<close>

text \<open>
  The tokens of \<open>split\<close> are non-empty and hold the non-whitespace code points of
  the string in order, so for a window of at least one token the last code point of
  the left context is the last non-whitespace code point before the offset, and the
  first code point of the right context is the first non-whitespace code point after
  the surface form.
\<close>

lemma concat_split_run: "concat (split_run tok s) = tok @ nonspace s"
  by (induction s arbitrary: tok) (auto simp: nonspace_def)

lemma split_run_tokens_nonempty: "t \<in> set (split_run tok s) \<Longrightarrow> t \<noteq> []"
  by (induction s arbitrary: tok) (auto split: if_splits)

lemma concat_py_split: "concat (py_split s) = nonspace s"
  by (simp add: py_split_def concat_split_run)

lemma py_split_tokens_nonempty: "t \<in> set (py_split s) \<Longrightarrow> t \<noteq> []"
  unfolding py_split_def by (rule split_run_tokens_nonempty)

lemma filter_dropWhile_neg: "filter (\<lambda>c. \<not> P c) (dropWhile P xs) = filter (\<lambda>c. \<not> P c) xs"
  by (induction xs) auto

lemma nonspace_strip: "nonspace (py_strip s) = nonspace s"
proof -
  have "nonspace (py_strip s)
        = rev (filter (\<lambda>c. \<not> py_isspace c) (dropWhile py_isspace (rev (dropWhile py_isspace s))))"
    by (simp add: nonspace_def py_strip_def rev_filter)
  also have "\<dots> = rev (filter (\<lambda>c. \<not> py_isspace c) (rev (dropWhile py_isspace s)))"
    by (simp only: filter_dropWhile_neg)
  also have "\<dots> = filter (\<lambda>c. \<not> py_isspace c) (dropWhile py_isspace s)"
    by (simp add: rev_filter)
  also have "\<dots> = nonspace s" by (simp only: filter_dropWhile_neg nonspace_def)
  finally show ?thesis .
qed

lemma py_join_nonempty:
  "toks \<noteq> [] \<Longrightarrow> \<forall>t \<in> set toks. t \<noteq> [] \<Longrightarrow>
   py_join sep toks \<noteq> [] \<and> last (py_join sep toks) = last (last toks)
   \<and> hd (py_join sep toks) = hd (hd toks)"
  by (induction sep toks rule: py_join.induct) auto

lemma last_concat_tokens:
  "toks \<noteq> [] \<Longrightarrow> \<forall>t \<in> set toks. t \<noteq> [] \<Longrightarrow> last (concat toks) = last (last toks)"
  by (induction toks) auto

lemma hd_concat_tokens:
  "toks \<noteq> [] \<Longrightarrow> \<forall>t \<in> set toks. t \<noteq> [] \<Longrightarrow> hd (concat toks) = hd (hd toks)"
  by (cases toks) auto

lemma concat_tokens_Nil:
  "\<forall>t \<in> set toks. t \<noteq> [] \<Longrightarrow> concat toks = [] \<longleftrightarrow> toks = []"
  by (cases toks) auto

lemma left_window:
  assumes "1 \<le> w"
  shows "py_slice_from toks (- w) = drop (length toks - nat w) toks"
  using assms by (simp add: py_slice_from_def)

lemma right_window:
  assumes "1 \<le> w"
  shows "py_slice_to toks w = take (nat w) toks"
  using assms by (simp add: py_slice_to_def)

lemma left_context_last:
  assumes "1 \<le> w"
  shows "py_last_item (py_join sep (py_slice_from (py_split (py_strip s)) (- w)))
         = (if nonspace s = [] then Inl IndexError else Inr (last (nonspace s)))"
proof -
  let ?toks = "py_split (py_strip s)"
  let ?win = "drop (length ?toks - nat w) ?toks"
  have ne: "\<forall>t \<in> set ?toks. t \<noteq> []" using py_split_tokens_nonempty by blast
  have cc: "concat ?toks = nonspace s" by (simp add: concat_py_split nonspace_strip)
  show ?thesis
  proof (cases "nonspace s = []")
    case True
    then have "?toks = []" using cc concat_tokens_Nil[OF ne] by simp
    then show ?thesis using True assms by (simp add: left_window py_last_item_def)
  next
    case False
    then have t: "?toks \<noteq> []" using cc by auto
    have lt: "length ?toks - nat w < length ?toks"
    proof -
      have "0 < length ?toks" using t by simp
      moreover have "0 < nat w" using assms by simp
      ultimately show ?thesis by arith
    qed
    have w: "?win \<noteq> []" using lt by simp
    have wne: "\<forall>t \<in> set ?win. t \<noteq> []" using ne by (meson in_set_dropD)
    have "last ?win = last ?toks" using lt by (simp add: last_drop)
    then have "last (py_join sep ?win) = last (nonspace s)"
      using py_join_nonempty[OF w wne, of sep] last_concat_tokens[OF t ne] cc by simp
    then show ?thesis
      using False py_join_nonempty[OF w wne, of sep] assms
      by (simp add: left_window py_last_item_def)
  qed
qed

lemma right_context_first:
  assumes "1 \<le> w"
  shows "py_first_item (py_join sep (py_slice_to (py_split (py_strip s)) w))
         = (if nonspace s = [] then Inl IndexError else Inr (hd (nonspace s)))"
proof -
  let ?toks = "py_split (py_strip s)"
  let ?win = "take (nat w) ?toks"
  have ne: "\<forall>t \<in> set ?toks. t \<noteq> []" using py_split_tokens_nonempty by blast
  have cc: "concat ?toks = nonspace s" by (simp add: concat_py_split nonspace_strip)
  show ?thesis
  proof (cases "nonspace s = []")
    case True
    then have "?toks = []" using cc concat_tokens_Nil[OF ne] by simp
    then show ?thesis using True assms by (simp add: right_window py_first_item_def)
  next
    case False
    then have t: "?toks \<noteq> []" using cc by auto
    have w: "?win \<noteq> []" using t assms by simp
    have wne: "\<forall>t \<in> set ?win. t \<noteq> []" using ne by (meson in_set_takeD)
    have "hd ?win = hd ?toks" using t assms by (simp add: hd_take)
    then have h: "hd (py_join sep ?win) = hd (nonspace s)"
      using py_join_nonempty[OF w wne, of sep] hd_concat_tokens[OF t ne] cc by simp
    have n: "py_join sep ?win \<noteq> []" using py_join_nonempty[OF w wne, of sep] by simp
    show ?thesis
      using False h n assms
      by (cases "py_join sep ?win") (simp_all add: right_window py_first_item_def)
  qed
qed

text \<open>
  C8, as the claim states it, fails.  In \<open>foo, Bar\<close> the character immediately
  before offset 5 is a space, which is not in the punctuation table, and yet
  \<open>ne_context\<close> is the surface form \<open>Bar\<close> prefixed with the comma.
\<close>

theorem ne_context_skips_whitespace:
  "ustr ''foo, Bar'' ! 4 = 32 \<and> 32 \<notin> set CONTEXT_TOKENS
   \<and> snd (snd (ner_context (ustr ''foo, Bar'') (ustr ''Bar'') 5 5)) = 44 # ustr ''Bar''
   \<and> 44 # ustr ''Bar'' \<noteq> ustr ''Bar''"
  by (simp add: ctx_eval)

text \<open>
  C8, amended.  For every text, surface form, offset and window size of at least 1,
  \<open>ne_context\<close> is the surface form, prefixed with the last non-whitespace
  character of \<open>text_org[:pos]\<close> exactly when there is one and it belongs to the
  punctuation table, and suffixed with the first non-whitespace character of
  \<open>text_org[pos + len(ne):]\<close> exactly when there is one and it belongs to the table;
  nothing else is prepended or appended.
\<close>

theorem ne_context_boundary:
  assumes "1 \<le> context_len"
  shows "snd (snd (ner_context text_org surface pos context_len))
         = (if nonspace (py_slice_to text_org pos) \<noteq> []
               \<and> last (nonspace (py_slice_to text_org pos)) \<in> set CONTEXT_TOKENS
            then [last (nonspace (py_slice_to text_org pos))] else [])
           @ surface
           @ (if nonspace (py_slice_from text_org (pos + int (length surface))) \<noteq> []
                 \<and> hd (nonspace (py_slice_from text_org (pos + int (length surface))))
                     \<in> set CONTEXT_TOKENS
              then [hd (nonspace (py_slice_from text_org (pos + int (length surface))))] else [])"
  by (simp add: ner_context_def Let_def left_context_last[OF assms]
      right_context_first[OF assms])

theorem ne_context_boundary_witness:
  "(1 :: int) \<le> 5
   \<and> nonspace (py_slice_to (ustr ''foo, Bar'') 5) = ustr ''foo,''
   \<and> snd (snd (ner_context (ustr ''foo, Bar'') (ustr ''Bar'') 5 5)) = ustr '','' @ ustr ''Bar''"
  using ne_context_boundary[of 5 "ustr ''foo, Bar''" "ustr ''Bar''" 5]
  by (simp add: ustr_def nonspace_def py_slice_to_def py_slice_from_def py_isspace_def
      CONTEXT_TOKENS_def)


section \<open>The aggregator returns an ascending list\<close>

text \<open>
  Every pass keeps the registry well formed.  An entry of a well-formed registry has at
  most four sources, so its winning count is between 1 and 4 and \<open>max_class\<close>
  returns: the final loop never raises.  The offsets of the emitted entries are keys of
  the registry, each at most once, and the stable sort puts them in order.
\<close>

lemma seed_entry_ok: "entry_ok (seed_entry backend x)"
  by (simp add: entry_ok_def seed_entry_def histogram_def dict_keys_def)

lemma registry_ok_Nil: "registry_ok []"
  by (simp add: registry_ok_def dict_keys_def)

lemma registry_ok_dict_set:
  assumes "registry_ok reg" "entry_ok e"
  shows "registry_ok (dict_set k e reg)"
proof -
  have "\<forall>pe \<in> set (dict_set k e reg). entry_ok (snd pe)"
    using assms set_dict_set_subset[of k e reg] by (auto simp: registry_ok_def)
  then show ?thesis using assms(1) by (simp add: registry_ok_def distinct_dict_set)
qed

lemma registry_ok_lookup:
  "registry_ok reg \<Longrightarrow> dict_get reg p = Some e \<Longrightarrow> entry_ok e"
  by (force simp: registry_ok_def dict_get_def dest: map_of_SomeD)

lemma stanford_pass_ok:
  "registry_ok (fst st) \<Longrightarrow> registry_ok (fst (stanford_pass xs st))"
proof (induction xs arbitrary: st)
  case Nil
  then show ?case by simp
next
  case (Cons x xs)
  obtain reg res where st: "st = (reg, res)" by (cases st)
  have "registry_ok (dict_set (r_pos x) (seed_entry ''stanford'' x) reg)"
    using Cons.prems st by (simp add: registry_ok_dict_set seed_entry_ok)
  then show ?case
    using Cons.IH[of "(dict_set (r_pos x) (seed_entry ''stanford'' x) reg, seed_entry_keys)"]
    by (simp add: st)
qed

lemma spotlight_pass_ok:
  "no_int_key (snd st) \<Longrightarrow> registry_ok (fst st) \<Longrightarrow>
   \<exists>reg res. spotlight_pass xs st = Inr (reg, res) \<and> registry_ok reg"
proof (induction xs arbitrary: st)
  case Nil
  then show ?case by (cases st) simp
next
  case (Cons x xs)
  obtain reg res where st: "st = (reg, res)" by (cases st)
  have step: "spotlight_step x st
        = Inr (dict_set (r_pos x) (seed_entry ''spotlight'' x) reg, seed_entry_keys)"
    using Cons.prems st spotlight_step_seed by simp
  have "registry_ok (dict_set (r_pos x) (seed_entry ''spotlight'' x) reg)"
    using Cons.prems st by (simp add: registry_ok_dict_set seed_entry_ok)
  then show ?case
    using Cons.IH[of "(dict_set (r_pos x) (seed_entry ''spotlight'' x) reg, seed_entry_keys)"] step
    by (simp add: no_int_key_seed)
qed

lemma sum_dict_set:
  fixes v :: int
  shows "sum_list (map snd (dict_set k v d))
   = sum_list (map snd d) + v - (case map_of d k of None \<Rightarrow> 0 | Some n \<Rightarrow> n)"
  by (induction d) auto

lemma counts_dict_set:
  fixes v :: int
  shows "\<forall>n \<in> set (map snd d). 1 \<le> n \<Longrightarrow> 1 \<le> v \<Longrightarrow>
         \<forall>n \<in> set (map snd (dict_set k v d)). 1 \<le> n"
  by (induction d) (force split: if_splits)+

lemma dict_set_not_Nil: "dict_set k v d \<noteq> []"
  by (cases d) (auto split: if_splits)

lemma hist_add_histogram:
  assumes "histogram h"
  shows "histogram (hist_add h t)"
proof -
  have c: "\<forall>n \<in> set (map snd h). 1 \<le> n" and d: "distinct (dict_keys h)"
    using assms by (simp_all add: histogram_def)
  show ?thesis
  proof (cases "dict_get h t")
    case None
    then show ?thesis using counts_dict_set[OF c, of 1 t] d
      by (simp add: hist_add_def histogram_def distinct_dict_set dict_set_not_Nil)
  next
    case (Some n)
    then have "(t, n) \<in> set h" by (simp add: dict_get_def map_of_SomeD)
    then have "1 \<le> n" using c by force
    then have "1 \<le> n + 1" by simp
    then show ?thesis using counts_dict_set[OF c, of "n + 1" t] d Some
      by (simp add: hist_add_def histogram_def distinct_dict_set dict_set_not_Nil)
  qed
qed

lemma hist_add_sum:
  "sum_list (map snd (hist_add h t)) = sum_list (map snd h) + 1"
  by (cases "dict_get h t") (simp_all add: hist_add_def sum_dict_set dict_get_def)

lemma parser_step_ok:
  assumes "parser \<in> set parsers" "registry_ok reg"
  shows "registry_ok (parser_step parser x reg)"
proof (cases "dict_get reg (r_pos x)")
  case None
  have "entry_ok \<lparr>count = 1, ne = r_ne x, ner_src = [parser], type_hist = [(r_type x, 1)],
             pref_type = None, alt_ne = None\<rparr>"
    by (simp add: entry_ok_def histogram_def dict_keys_def)
  then show ?thesis using None assms(2) by (simp add: parser_step_def registry_ok_dict_set)
next
  case (Some e)
  have ok: "entry_ok e" using registry_ok_lookup[OF assms(2) Some] .
  show ?thesis
  proof (cases "parser \<in> set (ner_src e)")
    case True
    then show ?thesis using Some assms(2) by (simp add: parser_step_def)
  next
    case False
    have "entry_ok (e\<lparr>count := count e + 1,
                    ner_src := ner_src e @ [parser],
                    type_hist := hist_add (type_hist e) (r_type x),
                    alt_ne := (if r_ne x \<noteq> ne e then Some (r_ne x) else alt_ne e)\<rparr>)"
      using ok False assms(1)
      by (auto simp: entry_ok_def hist_add_histogram hist_add_sum)
    then show ?thesis using Some False assms(2)
      by (simp add: parser_step_def registry_ok_dict_set)
  qed
qed

lemma parser_pass_ok:
  "parser \<in> set parsers \<Longrightarrow> registry_ok reg \<Longrightarrow> registry_ok (parser_pass parser xs reg)"
  by (induction xs arbitrary: reg) (simp_all add: parser_step_ok)

lemma parsers_pass_ok:
  "set ps \<subseteq> set parsers \<Longrightarrow> registry_ok reg \<Longrightarrow> registry_ok (parsers_pass result ps reg)"
proof (induction ps arbitrary: reg)
  case Nil
  then show ?case by simp
next
  case (Cons p ps)
  then show ?case by (cases "result p") (simp_all add: parser_pass_ok)
qed


lemma member_le_sum_int:
  fixes x :: int
  shows "x \<in> set xs \<Longrightarrow> \<forall>y \<in> set xs. 0 \<le> y \<Longrightarrow> x \<le> sum_list xs"
proof (induction xs)
  case Nil
  then show ?case by simp
next
  case (Cons a xs)
  have "0 \<le> sum_list xs" using Cons.prems(2) by (simp add: sum_list_nonneg)
  then show ?case using Cons by auto
qed

lemma winning_count_bounds:
  assumes "histogram h"
  shows "1 \<le> winning_count h \<and> winning_count h \<le> sum_list (map snd h)"
proof -
  have n: "set (map snd h) \<noteq> {}" using assms by (simp add: histogram_def)
  have m: "winning_count h \<in> set (map snd h)"
    unfolding winning_count_def using n by (intro Max_in) auto
  have pos: "\<forall>y \<in> set (map snd h). 1 \<le> y" using assms by (simp add: histogram_def)
  then have "\<forall>y \<in> set (map snd h). 0 \<le> y" by force
  then have "winning_count h \<le> sum_list (map snd h)" using m member_le_sum_int by blast
  then show ?thesis using m pos by blast
qed

lemma ner_src_length:
  assumes "entry_ok e"
  shows "length (ner_src e) \<le> 4"
proof -
  have d: "distinct (tl (ner_src e))" using assms by (simp add: entry_ok_def distinct_tl)
  have "card (set (tl (ner_src e))) \<le> card (set parsers)"
    using assms by (intro card_mono) (simp_all add: entry_ok_def)
  moreover have "card (set parsers) \<le> 3"
    using card_length[of parsers] by (simp add: parsers_def)
  ultimately have "length (tl (ner_src e)) \<le> 3" using distinct_card[OF d] by simp
  then show ?thesis by simp
qed

lemma resolve_type_total:
  assumes "histogram (type_hist e)" "winning_count (type_hist e) \<le> 4"
  shows "\<exists>mc sure. resolve_type e = Inr (mc, sure)"
proof -
  have d: "distinct (dict_keys (type_hist e))" and n: "type_hist e \<noteq> []"
    using assms(1) by (simp_all add: histogram_def)
  have "1 \<le> winning_count (type_hist e)" using winning_count_bounds[OF assms(1)] by simp
  then consider "winning_count (type_hist e) = 1"
    | "winning_count (type_hist e) = 2 \<or> winning_count (type_hist e) = 3
       \<or> winning_count (type_hist e) = 4"
    using assms(2) by linarith
  then show ?thesis
  proof cases
    case 1
    then show ?thesis using resolve_type_one[OF assms(1)] by simp
  next
    case 2
    obtain k ks where ks: "dict_keys (type_hist e) = k # ks"
      using n by (cases "type_hist e") (auto simp: dict_keys_def)
    show ?thesis
    proof (cases "pref_type e")
      case None
      then show ?thesis using max_class_many[OF d n refl 2, of k] ks
        by (auto simp add: resolve_type_def)
    next
      case (Some t)
      then show ?thesis using max_class_many[OF d n refl 2, of t]
        by (auto simp add: resolve_type_def)
    qed
  qed
qed

lemma finalize_pos:
  "finalize source source_text context_len p e = Inr x \<Longrightarrow> o_pos x = p"
  by (auto simp: finalize_def split: sum.splits prod.splits)

lemma finalize_total:
  assumes "entry_ok e"
  shows "\<exists>x. finalize source source_text context_len p e = Inr x"
proof -
  have h: "histogram (type_hist e)" using assms by (simp add: entry_ok_def)
  have "winning_count (type_hist e) \<le> int (length (ner_src e))"
    using winning_count_bounds[OF h] assms by (simp add: entry_ok_def)
  then have "winning_count (type_hist e) \<le> 4" using ner_src_length[OF assms] by simp
  then obtain mc sure where "resolve_type e = Inr (mc, sure)"
    using resolve_type_total[OF h] by blast
  then show ?thesis by (simp add: finalize_def split: prod.splits)
qed

lemma final_pass_total:
  "\<forall>pe \<in> set reg. entry_ok (snd pe) \<Longrightarrow>
   \<exists>out. final_pass source source_text context_len reg = Inr out"
proof (induction reg)
  case Nil
  show ?case by simp
next
  case (Cons a reg)
  obtain p e where a: "a = (p, e)" by (cases a)
  obtain out where out: "final_pass source source_text context_len reg = Inr out"
    using Cons by auto
  have "entry_ok e" using Cons.prems a by simp
  then obtain x where "finalize source source_text context_len p e = Inr x"
    using finalize_total by blast
  then show ?case using a out by simp
qed

lemma final_pass_positions:
  "final_pass source source_text context_len reg = Inr out \<Longrightarrow>
   distinct (dict_keys reg) \<Longrightarrow>
   distinct (map o_pos out) \<and> set (map o_pos out) \<subseteq> set (dict_keys reg)"
proof (induction reg arbitrary: out)
  case Nil
  then show ?case by simp
next
  case (Cons a reg)
  obtain p e where a: "a = (p, e)" by (cases a)
  have dk: "distinct (dict_keys reg)" and pn: "p \<notin> set (dict_keys reg)"
    using Cons.prems(2) a by (simp_all add: dict_keys_def)
  show ?case
  proof (cases "survives e")
    case False
    then have "final_pass source source_text context_len reg = Inr out"
      using Cons.prems(1) a by simp
    then show ?thesis using Cons.IH[OF _ dk] by (auto simp: dict_keys_def)
  next
    case True
    then obtain x xs where x: "finalize source source_text context_len p e = Inr x"
      and xs: "final_pass source source_text context_len reg = Inr xs"
      and o: "out = x # xs"
      using Cons.prems(1) a by (auto split: sum.splits)
    have ih: "distinct (map o_pos xs) \<and> set (map o_pos xs) \<subseteq> set (dict_keys reg)"
      using Cons.IH[OF xs dk] .
    have "o_pos x = p" using finalize_pos[OF x] .
    then show ?thesis using ih pn o a by (auto simp: dict_keys_def)
  qed
qed

lemma set_map_insort_key:
  "set (map f (insort_key f x xs)) = insert (f x) (set (map f xs))"
  by (simp add: set_insort_key)

lemma distinct_map_insort_key:
  "distinct (map f (insort_key f x xs)) \<longleftrightarrow> f x \<notin> set (map f xs) \<and> distinct (map f xs)"
  by (induction xs) (auto simp: set_insort_key)

lemma distinct_map_sort_key:
  "distinct (map f (sort_key f xs)) \<longleftrightarrow> distinct (map f xs)"
  by (induction xs) (simp_all add: distinct_map_insort_key)

lemma sort_key_strictly_ascending:
  fixes f :: "'a \<Rightarrow> int"
  shows "distinct (map f xs) \<Longrightarrow> sorted_wrt (<) (map f (sort_key f xs))"
  by (simp add: strict_sorted_iff distinct_map_sort_key)

lemma aggregate_returns_ascending:
  assumes "result ''stanford'' = Some a" "result ''spotlight'' = Some b"
  shows "\<exists>out. intergrate_results result source source_text context_len = Inr out
               \<and> sorted_wrt (<) (map o_pos out)"
proof -
  have r0: "registry_ok (fst (stanford_pass a ([], [])))"
    using stanford_pass_ok[of "([], [])" a] by (simp add: registry_ok_Nil)
  have k0: "no_int_key (snd (stanford_pass a ([], [])))"
    using stanford_pass_res[of "([], [])" a] by (simp add: no_int_key_Nil)
  obtain reg res where sp: "spotlight_pass b (stanford_pass a ([], [])) = Inr (reg, res)"
    and r1: "registry_ok reg"
    using spotlight_pass_ok[OF k0 r0, of b] by blast
  have r2: "registry_ok (parsers_pass result parsers reg)"
    using parsers_pass_ok[OF _ r1, of parsers result] by simp
  then have "\<forall>pe \<in> set (parsers_pass result parsers reg). entry_ok (snd pe)"
    by (simp add: registry_ok_def)
  then obtain out where out:
    "final_pass source source_text context_len (parsers_pass result parsers reg) = Inr out"
    using final_pass_total by blast
  have "distinct (map o_pos out)"
    using final_pass_positions[OF out] r2 by (simp add: registry_ok_def)
  then have "sorted_wrt (<) (map o_pos (sort_key o_pos out))"
    by (rule sort_key_strictly_ascending)
  moreover have "intergrate_results result source source_text context_len
                 = Inr (sort_key o_pos out)"
    using assms sp out by (simp add: intergrate_results_def)
  ultimately show ?thesis by simp
qed

text \<open>
  C5.  For all backend results, segment labels, texts and window sizes: every list that
  \<open>intergrate_results\<close> returns is strictly ascending in \<open>pos\<close>, so no two of its
  entries share an offset; and whenever both seed backends are present in the results,
  it does return a list.
\<close>

theorem output_strictly_ascending:
  "(\<forall>out. intergrate_results result source source_text context_len = Inr out
          \<longrightarrow> sorted_wrt (<) (map o_pos out))
   \<and> (result ''stanford'' \<noteq> None \<and> result ''spotlight'' \<noteq> None
        \<longrightarrow> (\<exists>out. intergrate_results result source source_text context_len = Inr out))"
proof (intro conjI allI impI)
  fix out
  assume r: "intergrate_results result source source_text context_len = Inr out"
  obtain a where a: "result ''stanford'' = Some a"
    using r by (cases "result ''stanford''") (simp_all add: intergrate_results_def)
  obtain b where b: "result ''spotlight'' = Some b"
    using r a by (cases "result ''spotlight''") (simp_all add: intergrate_results_def)
  show "sorted_wrt (<) (map o_pos out)"
    using aggregate_returns_ascending[OF a b, of source source_text context_len] r by auto
next
  assume "result ''stanford'' \<noteq> None \<and> result ''spotlight'' \<noteq> None"
  then obtain a b where "result ''stanford'' = Some a" "result ''spotlight'' = Some b" by auto
  then show "\<exists>out. intergrate_results result source source_text context_len = Inr out"
    using aggregate_returns_ascending by blast
qed

theorem output_strictly_ascending_witness:
  "two_backends ''stanford'' \<noteq> None \<and> two_backends ''spotlight'' \<noteq> None
   \<and> (\<exists>out. intergrate_results two_backends ''p''
              (ustr ''Deze iets langere test bevat de naam Albert Einstein.'') 5 = Inr out
            \<and> map o_pos out = [0, 37]
            \<and> sorted_wrt (<) (map o_pos out))"
proof -
  have c: "two_backends ''stanford'' \<noteq> None \<and> two_backends ''spotlight'' \<noteq> None"
    by (simp add: two_backends_def)
  have e: "map_sum id (map o_pos) (intergrate_results two_backends ''p''
              (ustr ''Deze iets langere test bevat de naam Albert Einstein.'') 5) = Inr [0, 37]"
    by (simp add: two_backends_def einstein_stanford_def agg_eval ctx_eval)
  show ?thesis
    using output_strictly_ascending[of two_backends "''p''"
        "ustr ''Deze iets langere test bevat de naam Albert Einstein.''" 5] c e
    by (cases "intergrate_results two_backends ''p''
              (ustr ''Deze iets langere test bevat de naam Albert Einstein.'') 5") auto
qed


section \<open>The survivors of the final loop\<close>

text \<open>
  The offsets of a returned list are exactly the offsets of the registry whose entry
  has a non-empty preferred type or exactly two sources.
\<close>

lemma final_pass_survivors:
  "final_pass source source_text context_len reg = Inr out \<Longrightarrow>
   set (map o_pos out) = {p. \<exists>e. (p, e) \<in> set reg \<and> survives e}"
proof (induction reg arbitrary: out)
  case Nil
  then show ?case by simp
next
  case (Cons a reg)
  obtain p e where a: "a = (p, e)" by (cases a)
  show ?case
  proof (cases "survives e")
    case False
    then have "final_pass source source_text context_len reg = Inr out"
      using Cons.prems a by simp
    then show ?thesis using Cons.IH False a by auto
  next
    case True
    then obtain x xs where x: "finalize source source_text context_len p e = Inr x"
      and xs: "final_pass source source_text context_len reg = Inr xs"
      and o: "out = x # xs"
      using Cons.prems a by (auto split: sum.splits)
    have "o_pos x = p" using finalize_pos[OF x] .
    then show ?thesis using Cons.IH[OF xs] o a True by auto
  qed
qed

section \<open>The manual finder on every input\<close>

text \<open>
  Whenever the literal occurs in the text the call raises \<open>KeyError\<close>; when it does
  not occur the record with offset \<open>-1\<close> and empty contexts is returned.
\<close>

lemma manual_find_found:
  "py_find source_text input_str \<noteq> - 1 \<Longrightarrow>
   manual_find input_str source_text source context_len = Inl KeyError"
  by (simp add: manual_find_def Let_def)

lemma manual_find_absent:
  "py_find source_text input_str = - 1 \<Longrightarrow>
   manual_find input_str source_text source context_len
   = Inr \<lparr>m_pos = - 1, m_ne = input_str, m_source = source, m_type = ''manual'',
          m_left_context = Some [], m_right_context = Some [],
          m_ne_context = Some (CStr input_str)\<rparr>"
  by (simp add: manual_find_def Let_def)

section \<open>Windows of at least one token\<close>

text \<open>
  \<open>strip\<close> before \<open>split\<close> changes nothing.  For a window size of at least 1 the
  left context joins at most that many tokens from the end of the tokens of
  \<open>text_org[:pos]\<close>, and the right context joins at most that many tokens from the
  start of the tokens of \<open>text_org[pos + len(ne):]\<close>.
\<close>

lemma split_run_dropWhile: "split_run [] (dropWhile py_isspace s) = split_run [] s"
  by (induction s) auto

lemma split_run_spaces:
  "\<forall>c \<in> set ws. py_isspace c \<Longrightarrow> split_run tok ws = (if tok = [] then [] else [tok])"
  by (induction ws arbitrary: tok) auto

lemma split_run_append_spaces:
  "\<forall>c \<in> set ws. py_isspace c \<Longrightarrow> split_run tok (a @ ws) = split_run tok a"
  by (induction a arbitrary: tok) (auto simp: split_run_spaces)

lemma strip_right_decomp:
  "\<exists>ws. (\<forall>c \<in> set ws. py_isspace c) \<and> xs = rev (dropWhile py_isspace (rev xs)) @ ws"
proof -
  have "rev (rev xs) = rev (takeWhile py_isspace (rev xs) @ dropWhile py_isspace (rev xs))"
    by (simp only: takeWhile_dropWhile_id)
  then have "xs = rev (dropWhile py_isspace (rev xs)) @ rev (takeWhile py_isspace (rev xs))"
    by (simp only: rev_rev_ident rev_append)
  moreover have "\<forall>c \<in> set (rev (takeWhile py_isspace (rev xs))). py_isspace c"
    by (auto dest: set_takeWhileD)
  ultimately show ?thesis by blast
qed

lemma py_split_strip: "py_split (py_strip s) = py_split s"
proof -
  obtain ws where ws: "\<forall>c \<in> set ws. py_isspace c"
    and d: "dropWhile py_isspace s = py_strip s @ ws"
    using strip_right_decomp[of "dropWhile py_isspace s"] by (auto simp: py_strip_def)
  have "split_run [] (py_strip s) = split_run [] (py_strip s @ ws)"
    using split_run_append_spaces[OF ws] by simp
  also have "\<dots> = split_run [] s" using d split_run_dropWhile[of s] by simp
  finally show ?thesis by (simp add: py_split_def)
qed

lemma context_windows_bounded:
  assumes "1 \<le> context_len"
  shows "\<exists>ls rs pre post.
           fst (ner_context text_org surface pos context_len) = py_join (ustr '' '') ls
         \<and> length ls \<le> nat context_len
         \<and> py_split (py_slice_to text_org pos) = pre @ ls
         \<and> fst (snd (ner_context text_org surface pos context_len)) = py_join (ustr '' '') rs
         \<and> length rs \<le> nat context_len
         \<and> py_split (py_slice_from text_org (pos + int (length surface))) = rs @ post"
proof -
  let ?l = "py_split (py_slice_to text_org pos)"
  let ?r = "py_split (py_slice_from text_org (pos + int (length surface)))"
  have l: "fst (ner_context text_org surface pos context_len)
           = py_join (ustr '' '') (drop (length ?l - nat context_len) ?l)"
    using assms by (simp add: ner_context_def Let_def py_split_strip left_window)
  have r: "fst (snd (ner_context text_org surface pos context_len))
           = py_join (ustr '' '') (take (nat context_len) ?r)"
    using assms by (simp add: ner_context_def Let_def py_split_strip right_window)
  have "?l = take (length ?l - nat context_len) ?l @ drop (length ?l - nat context_len) ?l"
    by simp
  moreover have "?r = take (nat context_len) ?r @ drop (nat context_len) ?r" by simp
  moreover have "length (drop (length ?l - nat context_len) ?l) \<le> nat context_len" by simp
  moreover have "length (take (nat context_len) ?r) \<le> nat context_len" by simp
  ultimately show ?thesis using l r by blast
qed


end
